theory Spec2Isabelle
  imports Complex_Main "HOL-Library.Log_Nat"
begin

section \<open>The OTP service of VidZen\<close>

text \<open>
  The development embeds three parts of the source:
  \<^item> the function \<^verbatim>\<open>generateOTP\<close> of the module imported as \<^verbatim>\<open>@/lib/utils\<close>,
  \<^item> the function \<^verbatim>\<open>sendSms\<close> of \<^verbatim>\<open>server/sendgrid-service.ts\<close>,
  \<^item> the class \<^verbatim>\<open>OTPService\<close> of \<^verbatim>\<open>server/otp-service.ts\<close>.

  What the program reads from its environment is an input of the model: every function
  that reads \<^verbatim>\<open>Date.now()\<close> takes the value read as its argument \<open>now\<close>
  (milliseconds, an integer), and \<^verbatim>\<open>generateOTP\<close> takes the number that
  \<^verbatim>\<open>Math.random()\<close> returned. Console output is not part of the state and is left
  out.
\<close>

subsection \<open>The built-in \<^verbatim>\<open>Map\<close>\<close>

text \<open>
  A JavaScript \<^verbatim>\<open>Map\<close> is a list of entries in insertion order. \<^verbatim>\<open>get\<close> returns the
  value of the first entry with the key, \<^verbatim>\<open>set\<close> overwrites the value of the first
  entry with the key and appends a new entry when there is none, \<^verbatim>\<open>delete\<close> removes
  the first entry with the key.
\<close>

type_synonym ('k, 'v) Map = "('k \<times> 'v) list"

fun Map_get :: "'k \<Rightarrow> ('k, 'v) Map \<Rightarrow> 'v option" where
  "Map_get k [] = None"
| "Map_get k (e # es) = (if fst e = k then Some (snd e) else Map_get k es)"

fun Map_set :: "'k \<Rightarrow> 'v \<Rightarrow> ('k, 'v) Map \<Rightarrow> ('k, 'v) Map" where
  "Map_set k v [] = [(k, v)]"
| "Map_set k v (e # es) = (if fst e = k then (k, v) # es else e # Map_set k v es)"

fun Map_delete :: "'k \<Rightarrow> ('k, 'v) Map \<Rightarrow> ('k, 'v) Map" where
  "Map_delete k [] = []"
| "Map_delete k (e # es) = (if fst e = k then es else e # Map_delete k es)"

definition keys :: "('k, 'v) Map \<Rightarrow> 'k list" where
  "keys m = map fst m"

subsection \<open>The numbers of JavaScript\<close>

text \<open>
  A JavaScript number is a binary64 floating-point number. A finite one is a rational
  number \<open>m * 2 ^ (e - 52)\<close> with \<open>m\<close> an integer, \<open>\<bar>m\<bar> < 2 ^ 53\<close> and
  \<open>- 1022 \<le> e \<le> 1023\<close>; the model keeps the rational. The product and the sum of two
  numbers are the exact result rounded to the nearest number, to the one with the even
  \<open>m\<close> when two are as near.

  \<open>binade x\<close> is the exponent \<open>e\<close> with \<open>2 ^ e \<le> x < 2 ^ (e + 1)\<close>, for \<open>x > 0\<close>
  (lemma \<open>binade_bounds\<close> below), and \<open>ulp x\<close> is the distance between the numbers
  around \<open>x\<close>: \<open>2 ^ (e - 52)\<close>, and \<open>2 ^ - 1074\<close> below \<open>2 ^ - 1022\<close>. Where the machine
  would overflow to an infinity, from \<open>2 ^ 1024\<close> on, \<open>fl\<close> is not the machine's result;
  the numbers of this program stay below \<open>2 ^ 20\<close>.
\<close>

definition binade :: "rat \<Rightarrow> int" where
  "binade x = (if 1 \<le> x then bitlen \<lfloor>x\<rfloor> - 1 else - bitlen (\<lceil>1 / x\<rceil> - 1))"

definition ulp :: "rat \<Rightarrow> rat" where
  "ulp x = 2 powi (max (binade \<bar>x\<bar>) (- 1022) - 52)"

definition round_half_even :: "rat \<Rightarrow> int" where
  "round_half_even q =
     (let f = \<lfloor>q\<rfloor>; d = q - of_int f
      in if d < 1 / 2 then f else if 1 / 2 < d then f + 1 else if even f then f else f + 1)"

definition fl :: "rat \<Rightarrow> rat" where
  "fl x = (if x = 0 then 0 else of_int (round_half_even (x / ulp x)) * ulp x)"

definition is_double :: "rat \<Rightarrow> bool" where
  "is_double x = (fl x = x \<and> \<bar>x\<bar> < 2 ^ 1024)"

definition fl_mul :: "rat \<Rightarrow> rat \<Rightarrow> rat" where
  "fl_mul x y = fl (x * y)"

definition fl_add :: "rat \<Rightarrow> rat \<Rightarrow> rat" where
  "fl_add x y = fl (x + y)"

subsection \<open>\<^verbatim>\<open>generateOTP\<close>\<close>

text \<open>
  \<^verbatim>\<open>Number.prototype.toString\<close> on an integer: the decimal digits, most significant
  first, after a minus sign for a negative number.
\<close>

definition digit :: "nat \<Rightarrow> char" where
  "digit n = ''0123456789'' ! (n mod 10)"

function decimal :: "nat \<Rightarrow> string" where
  "decimal n = (if n < 10 then [digit n] else decimal (n div 10) @ [digit (n mod 10)])"
  by pat_completeness auto
termination
  by (relation "measure (\<lambda>n. n)") auto

declare decimal.simps [simp del]

definition toString :: "int \<Rightarrow> string" where
  "toString n = (if n < 0 then CHR ''-'' # decimal (nat (- n)) else decimal (nat n))"

text \<open>
  \<^verbatim>\<open>Math.floor(100000 + Math.random() * 900000).toString()\<close>, with \<open>rnd\<close> the number
  returned by \<^verbatim>\<open>Math.random()\<close>: the product and the sum are those of the machine.
\<close>

definition generateOTP :: "rat \<Rightarrow> string" where
  "generateOTP rnd = toString \<lfloor>fl_add 100000 (fl_mul rnd 900000)\<rfloor>"

text \<open>Reading a string of digits as a number, for stating the range of the codes.\<close>

definition digit_value :: "char \<Rightarrow> nat" where
  "digit_value c = of_char c - 48"

definition numeric_value :: "string \<Rightarrow> nat" where
  "numeric_value s = foldl (\<lambda>acc c. 10 * acc + digit_value c) 0 s"

definition is_ascii_digit :: "char \<Rightarrow> bool" where
  "is_ascii_digit c = (c \<in> set ''0123456789'')"

subsection \<open>\<^verbatim>\<open>sendSms\<close>\<close>

text \<open>A thrown value, and the mail service whose \<^verbatim>\<open>send\<close> returns or throws.\<close>

datatype error = Error string

record MailContent =
  content_type :: string
  content_value :: string

record MailDataRequired =
  mail_to :: string
  mail_from :: string
  subject :: string
  content :: "MailContent list"

datatype MailService = MailService (send: "MailDataRequired \<Rightarrow> error + unit")

text \<open>
  The module variable \<^verbatim>\<open>mailService\<close> is \<^verbatim>\<open>null\<close> or a service; it is the first
  argument. The whole body is inside \<^verbatim>\<open>try\<close>, and the \<^verbatim>\<open>catch\<close> returns \<^verbatim>\<open>true\<close>.
\<close>

definition sendSms :: "MailService option \<Rightarrow> string \<Rightarrow> string \<Rightarrow> error + bool" where
  "sendSms mailService phoneNumber message =
     (case mailService of
        None \<Rightarrow> Inr True
      | Some service \<Rightarrow>
          (let params = \<lparr>mail_to = phoneNumber @ ''@example.com'',
                         mail_from = ''otp@yourapplication.com'',
                         subject = ''Your OTP Code'',
                         content = [\<lparr>content_type = ''text/plain'', content_value = message\<rparr>,
                                    \<lparr>content_type = ''text/html'',
                                     content_value = ''<strong>'' @ message @ ''</strong>''\<rparr>]\<rparr>
           in case send service params of
                Inr u \<Rightarrow> Inr True
              | Inl err \<Rightarrow> Inr True))"

subsection \<open>\<^verbatim>\<open>OTPService\<close>\<close>

record OTPRecord =
  otp :: string
  expiresAt :: int

record OTPService =
  otpStore :: "(string, OTPRecord) Map"
  latestOtp :: "string option"
  latestMobile :: "string option"

text \<open>The object built by \<^verbatim>\<open>new OTPService()\<close>.\<close>

definition initial :: OTPService where
  "initial = \<lparr>otpStore = [], latestOtp = None, latestMobile = None\<rparr>"

definition generateUniqueOTP :: "OTPService \<Rightarrow> string \<Rightarrow> rat \<Rightarrow> int \<Rightarrow> string \<times> OTPService" where
  "generateUniqueOTP this mobile rnd now =
     (let code = generateOTP rnd;
          this1 = this\<lparr>otpStore :=
                    Map_set mobile \<lparr>otp = code, expiresAt = now + 5 * 60 * 1000\<rparr> (otpStore this)\<rparr>;
          this2 = this1\<lparr>latestOtp := Some code\<rparr>;
          this3 = this2\<lparr>latestMobile := Some mobile\<rparr>
      in (code, this3))"

text \<open>
  \<^verbatim>\<open>sendOTP\<close> with the function it awaits as a parameter: \<open>deliver\<close> returns \<open>Inl\<close> when
  it throws. The first component of the result is how the promise settles
  (\<open>Inr ()\<close> resolved, \<open>Inl\<close> rejected), the second is the object afterwards.
\<close>

definition sendOTP_with ::
  "(string \<Rightarrow> string \<Rightarrow> error + bool) \<Rightarrow> OTPService \<Rightarrow> string \<Rightarrow> rat \<Rightarrow> int
     \<Rightarrow> (error + unit) \<times> OTPService" where
  "sendOTP_with deliver this mobile rnd now =
     (let gen = generateUniqueOTP this mobile rnd now;
          code = fst gen;
          this' = snd gen;
          message = ''Your verification code is: '' @ code @ ''. It will expire in 5 minutes.''
      in case deliver mobile message of
           Inr sent \<Rightarrow> (Inr (), this')
         | Inl err \<Rightarrow> (Inr (), this'))"

definition sendOTP ::
  "MailService option \<Rightarrow> OTPService \<Rightarrow> string \<Rightarrow> rat \<Rightarrow> int \<Rightarrow> (error + unit) \<times> OTPService" where
  "sendOTP mailService = sendOTP_with (sendSms mailService)"

definition verifyOTP :: "OTPService \<Rightarrow> string \<Rightarrow> string \<Rightarrow> int \<Rightarrow> bool \<times> OTPService" where
  "verifyOTP this mobile otpToVerify now =
     (case Map_get mobile (otpStore this) of
        None \<Rightarrow> (False, this)
      | Some rcd \<Rightarrow>
          if expiresAt rcd < now then (False, this)
          else
            (let isValid = (otp rcd = otpToVerify)
             in if isValid
                then (True, this\<lparr>otpStore := Map_delete mobile (otpStore this)\<rparr>)
                else (False, this)))"

definition getLatestOtpForDevelopment :: "OTPService \<Rightarrow> string option" where
  "getLatestOtpForDevelopment this = latestOtp this"

subsection \<open>Histories of calls\<close>

text \<open>
  The module exports one \<^verbatim>\<open>OTPService\<close> object. Every method changes the object
  before its first \<^verbatim>\<open>await\<close> only, so the object after a run of the process is the
  result of the calls made, one after the other. A call carries the values it read
  from the environment.
\<close>

datatype call =
  SendOTP "MailService option" string rat int
| VerifyOTP string string int

fun step :: "OTPService \<Rightarrow> call \<Rightarrow> OTPService" where
  "step this (SendOTP mailService mobile rnd now) = snd (sendOTP mailService this mobile rnd now)"
| "step this (VerifyOTP mobile otpToVerify now) = snd (verifyOTP this mobile otpToVerify now)"

definition run :: "call list \<Rightarrow> OTPService" where
  "run calls = foldl step initial calls"

subsection \<open>What the development accessor is specified to return\<close>

text \<open>
  The codes generated by the \<^verbatim>\<open>sendOTP\<close> calls of a history, oldest first, and the
  specification of the accessor in terms of them: the code of the latest
  \<^verbatim>\<open>sendOTP\<close> call, whatever its destination, and nothing when there was none.
\<close>

fun issued_codes :: "call list \<Rightarrow> string list" where
  "issued_codes [] = []"
| "issued_codes (SendOTP mailService mobile rnd now # calls) = generateOTP rnd # issued_codes calls"
| "issued_codes (VerifyOTP mobile otpToVerify now # calls) = issued_codes calls"

definition spec_peekLastIssuedCode :: "call list \<Rightarrow> string option" where
  "spec_peekLastIssuedCode calls =
     (if issued_codes calls = [] then None else Some (last (issued_codes calls)))"

subsection \<open>A concrete state\<close>

text \<open>
  The service after one call \<^verbatim>\<open>sendOTP("5550001")\<close> at time \<open>0\<close>, with no mail service
  and \<^verbatim>\<open>Math.random()\<close> returning \<open>1/2\<close>: the code is \<^verbatim>\<open>550000\<close> and it expires
  at \<open>300000\<close>.
\<close>

definition pending :: OTPService where
  "pending = snd (sendOTP None initial ''5550001'' (1 / 2) 0)"

section \<open>Properties\<close>

subsection \<open>Facts about \<^verbatim>\<open>Map\<close>\<close>

lemma Map_get_set: "Map_get k' (Map_set k v m) = (if k' = k then Some v else Map_get k' m)"
  by (induction m) auto

lemma Map_get_None_iff: "Map_get k m = None \<longleftrightarrow> k \<notin> set (keys m)"
  by (induction m) (auto simp: keys_def)

lemma set_keys_delete: "set (keys (Map_delete k m)) \<subseteq> set (keys m)"
  by (induction m) (auto simp: keys_def)

lemma distinct_keys_set: "distinct (keys m) \<Longrightarrow> distinct (keys (Map_set k v m))"
proof (induction m)
  case Nil
  then show ?case by (simp add: keys_def)
next
  case (Cons e es)
  have "set (keys (Map_set k v es)) = insert k (set (keys es))"
    by (induction es) (auto simp: keys_def)
  with Cons show ?case by (auto simp: keys_def)
qed

lemma distinct_keys_delete: "distinct (keys m) \<Longrightarrow> distinct (keys (Map_delete k m))"
proof (induction m)
  case Nil
  then show ?case by simp
next
  case (Cons e es)
  have "set (keys (Map_delete k es)) \<subseteq> set (keys es)"
    by (rule set_keys_delete)
  with Cons show ?case by (auto simp: keys_def)
qed

lemma Map_get_delete:
  "distinct (keys m) \<Longrightarrow> Map_get k' (Map_delete k m) = (if k' = k then None else Map_get k' m)"
proof (induction m)
  case Nil
  then show ?case by simp
next
  case (Cons e es)
  then have "fst e \<notin> set (keys es)" by (simp add: keys_def)
  then have "Map_get (fst e) es = None" by (simp add: Map_get_None_iff)
  with Cons show ?case by (auto simp: keys_def)
qed

lemma distinct_keys_at_most_one:
  "distinct (keys m) \<Longrightarrow> length (filter (\<lambda>e. fst e = k) m) \<le> 1"
proof (induction m)
  case Nil
  then show ?case by simp
next
  case (Cons e es)
  show ?case
  proof (cases "fst e = k")
    case True
    with Cons.prems have "k \<notin> fst ` set es" by (simp add: keys_def)
    then have "filter (\<lambda>e. fst e = k) es = []" by (auto simp: filter_empty_conv)
    with True show ?thesis by simp
  next
    case False
    with Cons show ?thesis by (simp add: keys_def)
  qed
qed

subsection \<open>Facts about decimal digits\<close>

lemma below_ten_cases:
  "(k::nat) < 10 \<Longrightarrow>
     k = 0 \<or> k = 1 \<or> k = 2 \<or> k = 3 \<or> k = 4 \<or> k = 5 \<or> k = 6 \<or> k = 7 \<or> k = 8 \<or> k = 9"
  by arith

lemma digit_value_digit: "digit_value (digit n) = n mod 10"
  using below_ten_cases [of "n mod 10"]
  by (auto simp: digit_def digit_value_def)

lemma is_ascii_digit_digit: "is_ascii_digit (digit n)"
  using below_ten_cases [of "n mod 10"]
  by (auto simp: digit_def is_ascii_digit_def)

lemma numeric_value_snoc: "numeric_value (s @ [c]) = 10 * numeric_value s + digit_value c"
  by (simp add: numeric_value_def)

text \<open>Reading the digits of a number gives the number back.\<close>

lemma numeric_value_decimal: "numeric_value (decimal n) = n"
proof (induction n rule: decimal.induct)
  case (1 n)
  show ?case
  proof (cases "n < 10")
    case True
    then show ?thesis
      by (subst decimal.simps) (simp add: numeric_value_def digit_value_digit)
  next
    case False
    with 1 show ?thesis
      by (subst decimal.simps) (simp add: numeric_value_snoc digit_value_digit)
  qed
qed

lemma decimal_digits: "c \<in> set (decimal n) \<Longrightarrow> is_ascii_digit c"
proof (induction n rule: decimal.induct)
  case (1 n)
  show ?case
  proof (cases "n < 10")
    case True
    with 1(2) show ?thesis
      by (subst (asm) decimal.simps) (simp add: is_ascii_digit_digit)
  next
    case False
    with 1 show ?thesis
      by (subst (asm) (2) decimal.simps) (auto simp: is_ascii_digit_digit)
  qed
qed

text \<open>A number with \<open>k + 1\<close> digits is written with \<open>k + 1\<close> characters.\<close>

lemma length_decimal: "10 ^ k \<le> n \<Longrightarrow> n < 10 ^ Suc k \<Longrightarrow> length (decimal n) = Suc k"
proof (induction k arbitrary: n)
  case 0
  then show ?case by (subst decimal.simps) simp
next
  case (Suc k)
  have "(10::nat) \<le> 10 ^ Suc k" by simp
  with Suc.prems(1) have "\<not> n < 10" by linarith
  moreover have "10 ^ k \<le> n div 10" using Suc.prems by simp
  moreover have "n div 10 < 10 ^ Suc k" using Suc.prems by (simp add: less_mult_imp_div_less)
  ultimately show ?case
    using Suc.IH [of "n div 10"] by (subst decimal.simps) simp
qed

subsection \<open>Facts about rounding\<close>

lemma binade_bounds:
  assumes "0 < x"
  shows "2 powi binade x \<le> x" and "x < 2 powi (binade x + 1)"
proof -
  have "2 powi binade x \<le> x \<and> x < 2 powi (binade x + 1)"
  proof (cases "1 \<le> x")
    case True
    define n where "n = \<lfloor>x\<rfloor>"
    have n: "0 < n" using True by (simp add: n_def)
    define b where "b = bitlen n"
    have b: "1 \<le> b" using n bitlen_ge_iff_power [of 1 n] by (simp add: b_def)
    have bin: "binade x = b - 1" using True by (simp add: binade_def n_def b_def)
    from bitlen_bounds [OF n] have lo: "2 ^ nat (b - 1) \<le> n" and hi: "n < 2 ^ nat b"
      by (simp_all add: b_def)
    have "rat_of_int (2 ^ nat (b - 1)) \<le> rat_of_int n" using lo by (simp only: of_int_le_iff)
    also have "\<dots> \<le> x" by (simp add: n_def)
    finally have 1: "2 powi (b - 1) \<le> x" using b by (simp add: power_int_nonneg_exp)
    have "x < rat_of_int (2 ^ nat b)" using hi unfolding n_def by (simp only: floor_less_iff)
    then have 2: "x < 2 powi b" using b by (simp add: power_int_nonneg_exp)
    show ?thesis using 1 2 by (simp add: bin)
  next
    case False
    then have x1: "x < 1" by simp
    define y where "y = 1 / x"
    have y1: "1 < y" using assms x1 by (simp add: y_def)
    define c where "c = \<lceil>y\<rceil> - 1"
    have "1 < \<lceil>y\<rceil>" using y1 by (simp add: less_ceiling_iff)
    then have c: "0 < c" by (simp add: c_def)
    define b where "b = bitlen c"
    have b: "1 \<le> b" using c bitlen_ge_iff_power [of 1 c] by (simp add: b_def)
    have bin: "binade x = - b" using False by (simp add: binade_def y_def c_def b_def)
    from bitlen_bounds [OF c] have lo: "2 ^ nat (b - 1) \<le> c" and hi: "c < 2 ^ nat b"
      by (simp_all add: b_def)
    have "\<lceil>y\<rceil> \<le> 2 ^ nat b" using hi by (simp add: c_def)
    then have "y \<le> rat_of_int (2 ^ nat b)" by (simp only: ceiling_le_iff)
    then have "1 / x \<le> 2 ^ nat b" by (simp add: y_def)
    then have "1 \<le> 2 ^ nat b * x" using assms by (simp add: field_simps)
    then have "1 / 2 ^ nat b \<le> x" by (simp add: field_simps)
    then have 1: "2 powi (- b) \<le> x"
      using b by (simp add: power_int_minus_divide power_int_nonneg_exp)
    have "rat_of_int (2 ^ nat (b - 1)) \<le> rat_of_int c" using lo by (simp only: of_int_le_iff)
    also have "rat_of_int c < y" unfolding c_def using ceiling_correct [of y] by simp
    finally have "2 ^ nat (b - 1) < 1 / x" by (simp add: y_def)
    then have "x * 2 ^ nat (b - 1) < 1" using assms by (simp add: field_simps)
    then have "x < 1 / 2 ^ nat (b - 1)" by (simp add: field_simps)
    moreover have "2 powi (- b + 1) = 1 / (2::rat) ^ nat (b - 1)"
    proof -
      have "(2::rat) powi (- b + 1) = 2 powi (- (b - 1))" by simp
      also have "\<dots> = 1 / 2 powi (b - 1)" by (rule power_int_minus_divide)
      also have "\<dots> = 1 / 2 ^ nat (b - 1)" using b by (simp add: power_int_nonneg_exp)
      finally show ?thesis .
    qed
    ultimately have 2: "x < 2 powi (- b + 1)" by simp
    show ?thesis using 1 2 by (simp add: bin)
  qed
  then show "2 powi binade x \<le> x" and "x < 2 powi (binade x + 1)" by simp_all
qed

lemma powi_less_imp_less:
  assumes "(2::rat) powi a < 2 powi b"
  shows "a < b"
proof (rule ccontr)
  assume "\<not> a < b"
  then have "b \<le> a" by simp
  then have "(2::rat) powi b \<le> 2 powi a" by (rule power_int_increasing) simp
  with assms show False by simp
qed

lemma binade_le:
  assumes "0 < x" and "x < 2 powi (t + 1)"
  shows "binade x \<le> t"
proof -
  have "2 powi binade x < (2::rat) powi (t + 1)"
    using binade_bounds(1) [OF assms(1)] assms(2) by simp
  then have "binade x < t + 1" by (rule powi_less_imp_less)
  then show ?thesis by simp
qed

lemma binade_eqI:
  assumes "2 powi e \<le> x" and "x < 2 powi (e + 1)"
  shows "binade x = e"
proof -
  have pos: "0 < x"
  proof -
    have "0 < (2::rat) powi e" by simp
    with assms(1) show ?thesis by linarith
  qed
  have "binade x \<le> e" using pos assms(2) by (rule binade_le)
  moreover have "2 powi e < (2::rat) powi (binade x + 1)"
    using assms(1) binade_bounds(2) [OF pos] by simp
  then have "e < binade x + 1" by (rule powi_less_imp_less)
  ultimately show ?thesis by simp
qed

lemma ulp_pos: "0 < ulp x"
  by (simp add: ulp_def)

lemma ulp_grid:
  assumes "0 < x" and "x < 2 powi (t + 1)" and "- 1022 \<le> t"
  shows "\<exists>n::nat. 2 powi (t - 52) = 2 ^ n * ulp x"
proof -
  define m where "m = max (binade x) (- 1022)"
  have "binade x \<le> t" using assms(1,2) by (rule binade_le)
  with assms(3) have mt: "m \<le> t" by (simp add: m_def)
  have u: "ulp x = 2 powi (m - 52)" using assms(1) by (simp add: ulp_def m_def)
  have "(2::rat) powi (t - 52) = 2 powi (int (nat (t - m)) + (m - 52))" using mt by simp
  also have "\<dots> = 2 powi int (nat (t - m)) * 2 powi (m - 52)"
    by (rule power_int_add) simp
  also have "\<dots> = 2 ^ nat (t - m) * ulp x" by (simp only: power_int_of_nat u)
  finally show ?thesis by blast
qed

lemma round_half_even_cases: "round_half_even q = \<lfloor>q\<rfloor> \<or> round_half_even q = \<lfloor>q\<rfloor> + 1"
  by (simp add: round_half_even_def Let_def)

lemma round_half_even_ge:
  assumes "rat_of_int a \<le> q"
  shows "a \<le> round_half_even q"
proof -
  have "a \<le> \<lfloor>q\<rfloor>" using assms by (simp add: le_floor_iff)
  then show ?thesis using round_half_even_cases [of q] by auto
qed

lemma round_half_even_le:
  assumes "q \<le> rat_of_int b"
  shows "round_half_even q \<le> b"
proof (cases "q = rat_of_int b")
  case True
  then show ?thesis by (simp add: round_half_even_def)
next
  case False
  with assms have "q < rat_of_int b" by simp
  then have "\<lfloor>q\<rfloor> < b" by (simp add: floor_less_iff)
  then show ?thesis using round_half_even_cases [of q] by auto
qed

lemma round_half_even_below_half:
  assumes "q < rat_of_int b - 1 / 2"
  shows "round_half_even q \<le> b - 1"
proof -
  have "q < rat_of_int b" using assms by simp
  then have f: "\<lfloor>q\<rfloor> \<le> b - 1" by (simp add: floor_less_iff)
  show ?thesis
  proof (cases "\<lfloor>q\<rfloor> = b - 1")
    case True
    then have "q - rat_of_int \<lfloor>q\<rfloor> < 1 / 2" using assms by simp
    then show ?thesis using True by (simp add: round_half_even_def Let_def)
  next
    case False
    with f have "\<lfloor>q\<rfloor> + 1 \<le> b - 1" by simp
    then show ?thesis using round_half_even_cases [of q] by auto
  qed
qed

lemma fl_le:
  assumes "0 < x" and "x \<le> rat_of_int b * g" and "g = 2 ^ n * ulp x"
  shows "fl x \<le> rat_of_int b * g"
proof -
  have u: "0 < ulp x" by (rule ulp_pos)
  have "x \<le> rat_of_int (b * 2 ^ n) * ulp x" using assms(2,3) by (simp add: mult.assoc)
  then have "x / ulp x \<le> rat_of_int (b * 2 ^ n)" using u by (simp add: pos_divide_le_eq)
  then have "round_half_even (x / ulp x) \<le> b * 2 ^ n" by (rule round_half_even_le)
  then have "rat_of_int (round_half_even (x / ulp x)) \<le> rat_of_int (b * 2 ^ n)"
    by (simp only: of_int_le_iff)
  then have "rat_of_int (round_half_even (x / ulp x)) * ulp x \<le> rat_of_int (b * 2 ^ n) * ulp x"
    using u by (simp only: mult_le_cancel_right_pos)
  then show ?thesis using assms(1,3) by (simp add: fl_def mult.assoc)
qed

lemma fl_ge:
  assumes "0 < x" and "rat_of_int a * g \<le> x" and "g = 2 ^ n * ulp x"
  shows "rat_of_int a * g \<le> fl x"
proof -
  have u: "0 < ulp x" by (rule ulp_pos)
  have "rat_of_int (a * 2 ^ n) * ulp x \<le> x" using assms(2,3) by (simp add: mult.assoc)
  then have "rat_of_int (a * 2 ^ n) \<le> x / ulp x" using u by (simp add: pos_le_divide_eq)
  then have "a * 2 ^ n \<le> round_half_even (x / ulp x)" by (rule round_half_even_ge)
  then have "rat_of_int (a * 2 ^ n) \<le> rat_of_int (round_half_even (x / ulp x))"
    by (simp only: of_int_le_iff)
  then have "rat_of_int (a * 2 ^ n) * ulp x \<le> rat_of_int (round_half_even (x / ulp x)) * ulp x"
    using u by (simp only: mult_le_cancel_right_pos)
  then show ?thesis using assms(1,3) by (simp add: fl_def mult.assoc)
qed

text \<open>A double below 1 is at most 1 - 2^-53.\<close>

lemma double_below_one:
  assumes "is_double rnd" and "0 \<le> rnd" and "rnd < 1"
  shows "rnd \<le> 1 - 1 / 2 ^ 53"
proof (cases "rnd < 1 / 2")
  case True
  then show ?thesis by simp
next
  case False
  then have half: "2 powi (- 1) \<le> rnd" by (simp add: power_int_minus_divide)
  have "rnd < 2 powi (- 1 + 1)" using assms(3) by simp
  with half have "binade rnd = - 1" by (rule binade_eqI)
  moreover have "\<bar>rnd\<bar> = rnd" using assms(2) by simp
  ultimately have u: "ulp rnd = 1 / 2 ^ 53"
    by (simp add: ulp_def power_int_minus_divide)
  define k where "k = round_half_even (rnd / ulp rnd)"
  have pos: "rnd \<noteq> 0" using False by auto
  have eq: "rnd = rat_of_int k / 2 ^ 53"
    using assms(1) pos by (simp add: is_double_def fl_def k_def u)
  with assms(3) have "rat_of_int k < 2 ^ 53" by (simp add: field_simps)
  then have "rat_of_int k < rat_of_int (2 ^ 53)" by simp
  then have "k < 2 ^ 53" by (simp only: of_int_less_iff)
  then have "k \<le> 2 ^ 53 - 1" by simp
  then have "rat_of_int k \<le> rat_of_int (2 ^ 53 - 1)" by (simp only: of_int_le_iff)
  then have "rat_of_int k / 2 ^ 53 \<le> rat_of_int (2 ^ 53 - 1) / 2 ^ 53"
    by (simp add: divide_right_mono)
  then show ?thesis by (simp add: eq diff_divide_distrib)
qed

lemma fl_nonneg:
  assumes "0 \<le> x"
  shows "0 \<le> fl x"
proof (cases "x = 0")
  case True
  then show ?thesis by (simp add: fl_def)
next
  case False
  with assms have pos: "0 < x" by simp
  have "rat_of_int 0 * (2 ^ 0 * ulp x) \<le> x" using assms by simp
  with pos have "rat_of_int 0 * (2 ^ 0 * ulp x) \<le> fl x"
    by (rule fl_ge) (rule refl)
  then show ?thesis by simp
qed

lemma fl_mul_range:
  assumes "0 \<le> rnd" and "rnd \<le> 1 - 1 / 2 ^ 53"
  shows "0 \<le> fl_mul rnd 900000" and "fl_mul rnd 900000 \<le> 900000 - 1 / 2 ^ 33"
proof -
  define p where "p = rnd * 900000"
  have p0: "0 \<le> p" using assms(1) by (simp add: p_def)
  have "p \<le> (1 - 1 / 2 ^ 53) * 900000"
    unfolding p_def using assms(2) by (rule mult_right_mono) simp
  then have p1: "p \<le> 900000 - 900000 / 2 ^ 53" by (simp add: algebra_simps)
  show "0 \<le> fl_mul rnd 900000"
    using p0 by (simp add: fl_mul_def p_def [symmetric] fl_nonneg)
  have "fl p \<le> 900000 - 1 / 2 ^ 33"
  proof (cases "p < 2 ^ 19")
    case True
    show ?thesis
    proof (cases "p = 0")
      case True
      then show ?thesis by (simp add: fl_def)
    next
      case False
      with p0 have pos: "0 < p" by simp
      have "p < 2 powi (18 + 1)" using True by simp
      with pos obtain n :: nat where g: "2 powi (18 - 52) = 2 ^ n * ulp p"
        using ulp_grid [of p 18] by auto
      have "p \<le> rat_of_int (2 ^ 53) * 2 powi (18 - 52)"
        using True by (simp add: power_int_minus_divide)
      with pos have "fl p \<le> rat_of_int (2 ^ 53) * 2 powi (18 - 52)"
        using g by (rule fl_le)
      then show ?thesis by (simp add: power_int_minus_divide)
    qed
  next
    case False
    then have lo: "2 powi 19 \<le> p" by simp
    have "p < 2 powi (19 + 1)" using p1 by simp
    with lo have "binade p = 19" by (rule binade_eqI)
    moreover have "\<bar>p\<bar> = p" using p0 by simp
    ultimately have u: "ulp p = 1 / 2 ^ 33"
      by (simp add: ulp_def power_int_minus_divide)
    have pos: "p \<noteq> 0" using False by auto
    have "p * 2 ^ 33 \<le> (900000 - 900000 / 2 ^ 53) * 2 ^ 33"
      using p1 by (rule mult_right_mono) simp
    also have "\<dots> < rat_of_int (900000 * 2 ^ 33) - 1 / 2" by simp
    finally have "round_half_even (p * 2 ^ 33) \<le> 900000 * 2 ^ 33 - 1"
      by (rule round_half_even_below_half)
    then have "rat_of_int (round_half_even (p * 2 ^ 33)) \<le> rat_of_int (900000 * 2 ^ 33 - 1)"
      by (simp only: of_int_le_iff)
    then have "rat_of_int (round_half_even (p * 2 ^ 33)) / 2 ^ 33
                 \<le> rat_of_int (900000 * 2 ^ 33 - 1) / 2 ^ 33"
      by (simp add: divide_right_mono)
    also have "\<dots> = 900000 - 1 / 2 ^ 33" by simp
    finally show ?thesis using pos by (simp add: fl_def u)
  qed
  then show "fl_mul rnd 900000 \<le> 900000 - 1 / 2 ^ 33"
    by (simp add: fl_mul_def p_def)
qed

lemma fl_add_range:
  assumes "0 \<le> y" and "y \<le> 900000 - 1 / 2 ^ 33"
  shows "100000 \<le> fl_add 100000 y" and "fl_add 100000 y \<le> 1000000 - 1 / 2 ^ 33"
proof -
  define s where "s = 100000 + y"
  have pos: "0 < s" using assms(1) by (simp add: s_def)
  have "s < 2 powi (19 + 1)" using assms(2) by (simp add: s_def)
  with pos obtain n :: nat where g: "2 powi (19 - 52) = 2 ^ n * ulp s"
    using ulp_grid [of s 19] by auto
  have "rat_of_int (100000 * 2 ^ 33) * 2 powi (19 - 52) \<le> s"
    using assms(1) by (simp add: s_def power_int_minus_divide)
  with pos have "rat_of_int (100000 * 2 ^ 33) * 2 powi (19 - 52) \<le> fl s"
    using g by (rule fl_ge)
  then show "100000 \<le> fl_add 100000 y"
    by (simp add: fl_add_def s_def power_int_minus_divide)
  have "s \<le> rat_of_int (1000000 * 2 ^ 33 - 1) * 2 powi (19 - 52)"
    using assms(2) by (simp add: s_def power_int_minus_divide)
  with pos have "fl s \<le> rat_of_int (1000000 * 2 ^ 33 - 1) * 2 powi (19 - 52)"
    using g by (rule fl_le)
  then show "fl_add 100000 y \<le> 1000000 - 1 / 2 ^ 33"
    by (simp add: fl_add_def s_def power_int_minus_divide)
qed

lemma floor_range:
  assumes "is_double rnd" and "0 \<le> rnd" and "rnd < 1"
  shows "100000 \<le> \<lfloor>fl_add 100000 (fl_mul rnd 900000)\<rfloor>"
    and "\<lfloor>fl_add 100000 (fl_mul rnd 900000)\<rfloor> \<le> 999999"
proof -
  have r: "rnd \<le> 1 - 1 / 2 ^ 53" using assms by (rule double_below_one)
  define z where "z = fl_add 100000 (fl_mul rnd 900000)"
  have lo: "100000 \<le> z" and hi: "z \<le> 1000000 - 1 / 2 ^ 33"
    unfolding z_def by (rule fl_add_range [OF fl_mul_range [OF assms(2) r]])+
  show "100000 \<le> \<lfloor>fl_add 100000 (fl_mul rnd 900000)\<rfloor>"
    using lo by (simp add: z_def [symmetric] le_floor_iff)
  have "z < 1000000" using hi by simp
  then have "\<lfloor>z\<rfloor> < 1000000" by (simp add: floor_less_iff)
  then show "\<lfloor>fl_add 100000 (fl_mul rnd 900000)\<rfloor> \<le> 999999"
    by (simp add: z_def [symmetric])
qed

text \<open>The integers from 0 to \<open>2 ^ 53\<close> are numbers of the machine.\<close>

lemma fl_of_int:
  assumes "0 \<le> n" and "n < 2 ^ 53"
  shows "fl (rat_of_int n) = rat_of_int n"
proof (cases "n = 0")
  case True
  then show ?thesis by (simp add: fl_def)
next
  case False
  with assms(1) have pos: "0 < rat_of_int n" by simp
  have "rat_of_int n < rat_of_int (2 ^ 53)" using assms(2) by (simp only: of_int_less_iff)
  then have "rat_of_int n < 2 powi (52 + 1)" by simp
  with pos obtain k :: nat where g: "2 powi (52 - 52) = 2 ^ k * ulp (rat_of_int n)"
    using ulp_grid [of "rat_of_int n" 52] by auto
  have "fl (rat_of_int n) \<le> rat_of_int n * 2 powi (52 - 52)"
    using pos _ g by (rule fl_le) simp
  moreover have "rat_of_int n * 2 powi (52 - 52) \<le> fl (rat_of_int n)"
    using pos _ g by (rule fl_ge) simp
  ultimately show ?thesis by simp
qed

text \<open>When the product is an integer, nothing is rounded.\<close>

lemma generateOTP_exact:
  assumes "0 \<le> n" and "n \<le> 900000" and "rnd * 900000 = rat_of_int n"
  shows "generateOTP rnd = toString (100000 + n)"
proof -
  have "fl_mul rnd 900000 = fl (rat_of_int n)" by (simp only: fl_mul_def assms(3))
  also have "\<dots> = rat_of_int n" using assms(1,2) by (intro fl_of_int) simp_all
  finally have "fl_add 100000 (fl_mul rnd 900000) = fl (rat_of_int (100000 + n))"
    by (simp add: fl_add_def)
  also have "\<dots> = rat_of_int (100000 + n)" using assms(1,2) by (intro fl_of_int) simp_all
  finally show ?thesis by (simp only: generateOTP_def floor_of_int)
qed

lemma generateOTP_half: "generateOTP (1 / 2) = ''550000''"
proof -
  have "generateOTP (1 / 2) = toString (100000 + 450000)"
    by (rule generateOTP_exact) simp_all
  then show ?thesis by (simp add: toString_def decimal.simps digit_def)
qed

lemma generateOTP_quarter: "generateOTP (1 / 4) = ''325000''"
proof -
  have "generateOTP (1 / 4) = toString (100000 + 225000)"
    by (rule generateOTP_exact) simp_all
  then show ?thesis by (simp add: toString_def decimal.simps digit_def)
qed

lemma is_double_half: "is_double (1 / 2)"
proof -
  have "binade (1 / 2) = - 1"
    by (rule binade_eqI) (simp_all add: power_int_minus_divide)
  then have u: "ulp (1 / 2) = 1 / 2 ^ 53"
    by (simp add: ulp_def power_int_minus_divide)
  show ?thesis
    by (simp add: is_double_def fl_def u round_half_even_def)
qed

lemma round_half_even_eqI:
  assumes "rat_of_int n \<le> q" and "q < rat_of_int n + 1 / 2"
  shows "round_half_even q = n"
proof -
  have "\<lfloor>q\<rfloor> = n" using assms by (intro floor_unique) simp_all
  then show ?thesis using assms(2) by (simp add: round_half_even_def Let_def)
qed

lemma round_half_even_eqI':
  assumes "rat_of_int n - 1 / 2 < q" and "q < rat_of_int n"
  shows "round_half_even q = n"
proof -
  have f: "\<lfloor>q\<rfloor> = n - 1" using assms by (intro floor_unique) simp_all
  have "1 / 2 < q - rat_of_int (n - 1)" using assms(1) by simp
  then show ?thesis by (simp add: round_half_even_def Let_def f)
qed

lemma fl_eqI:
  assumes "2 powi e \<le> x" and "x < 2 powi (e + 1)" and "- 1022 \<le> e"
    and "round_half_even (x / 2 powi (e - 52)) = n"
  shows "fl x = rat_of_int n * 2 powi (e - 52)"
proof -
  have "binade x = e" using assms(1,2) by (rule binade_eqI)
  moreover have "0 < x"
  proof -
    have "0 < (2::rat) powi e" by simp
    with assms(1) show ?thesis by linarith
  qed
  ultimately show ?thesis using assms(3,4) by (simp add: fl_def ulp_def)
qed

text \<open>
  Every normal binary64 number, \<open>m * 2 ^ (e - 52)\<close> with \<open>2 ^ 52 \<le> m < 2 ^ 53\<close> and
  \<open>- 1022 \<le> e \<le> 1023\<close>, is a number of the model.
\<close>

lemma normal_is_double:
  assumes "2 ^ 52 \<le> m" and "m < 2 ^ 53" and "- 1022 \<le> e" and "e \<le> 1023"
  shows "is_double (rat_of_int m * 2 powi (e - 52))"
proof -
  define x where "x = rat_of_int m * 2 powi (e - 52)"
  have g: "0 < (2::rat) powi (e - 52)" by simp
  have "rat_of_int (2 ^ 52) \<le> rat_of_int m" using assms(1) by (simp only: of_int_le_iff)
  then have "rat_of_int (2 ^ 52) * 2 powi (e - 52) \<le> x"
    unfolding x_def using g by (simp only: mult_le_cancel_right_pos)
  moreover have "(2::rat) powi (52 + (e - 52)) = 2 powi 52 * 2 powi (e - 52)"
    by (rule power_int_add) simp
  ultimately have lo: "2 powi e \<le> x" by simp
  have "rat_of_int m < rat_of_int (2 ^ 53)" using assms(2) by (simp only: of_int_less_iff)
  then have "x < rat_of_int (2 ^ 53) * 2 powi (e - 52)"
    unfolding x_def using g by (simp only: mult_less_cancel_right_pos)
  moreover have "(2::rat) powi (53 + (e - 52)) = 2 powi 53 * 2 powi (e - 52)"
    by (rule power_int_add) simp
  ultimately have hi: "x < 2 powi (e + 1)" by (simp add: add.commute)
  have "x / 2 powi (e - 52) = rat_of_int m" by (simp add: x_def)
  then have "round_half_even (x / 2 powi (e - 52)) = m"
    by (simp add: round_half_even_def)
  with lo hi assms(3) have "fl x = rat_of_int m * 2 powi (e - 52)" by (rule fl_eqI)
  then have same: "fl x = x" by (simp only: x_def)
  have "0 < x"
  proof -
    have "0 < (2::rat) powi e" by simp
    with lo show ?thesis by linarith
  qed
  moreover have "(2::rat) powi (e + 1) \<le> 2 powi 1024"
    using assms(4) by (intro power_int_increasing) simp_all
  ultimately have "\<bar>x\<bar> < 2 ^ 1024" using hi by simp
  with same show ?thesis by (simp only: is_double_def x_def)
qed

text \<open>
  The largest number below 1 is \<open>1 - 2 ^ - 53\<close>. The product is rounded down there, and
  the code is the largest one.
\<close>

lemma is_double_largest: "is_double (1 - 1 / 2 ^ 53)"
proof -
  have "is_double (rat_of_int (2 ^ 53 - 1) * 2 powi (- 1 - 52))"
    by (rule normal_is_double) simp_all
  then show ?thesis by (simp add: power_int_minus_divide)
qed

lemma generateOTP_largest: "generateOTP (1 - 1 / 2 ^ 53) = ''999999''"
proof -
  define p :: rat where "p = (1 - 1 / 2 ^ 53) * 900000"
  define s :: rat where "s = 100000 + (900000 - 1 / 2 ^ 33)"
  have "round_half_even (p / 2 powi (19 - 52)) = 900000 * 2 ^ 33 - 1"
    by (rule round_half_even_eqI) (simp_all add: p_def power_int_minus_divide)
  then have "fl p = rat_of_int (900000 * 2 ^ 33 - 1) * 2 powi (19 - 52)"
    by (intro fl_eqI) (simp_all add: p_def)
  then have y: "fl p = 900000 - 1 / 2 ^ 33"
    by (simp add: power_int_minus_divide)
  have "round_half_even (s / 2 powi (19 - 52)) = 1000000 * 2 ^ 33 - 1"
    by (rule round_half_even_eqI) (simp_all add: s_def power_int_minus_divide)
  then have "fl s = rat_of_int (1000000 * 2 ^ 33 - 1) * 2 powi (19 - 52)"
    by (intro fl_eqI) (simp_all add: s_def)
  then have z: "fl s = 1000000 - 1 / 2 ^ 33"
    by (simp add: power_int_minus_divide)
  have "\<lfloor>fl_add 100000 (fl_mul (1 - 1 / 2 ^ 53) 900000)\<rfloor> = \<lfloor>fl (100000 + fl p)\<rfloor>"
    by (simp only: fl_add_def fl_mul_def p_def)
  also have "\<dots> = \<lfloor>fl s\<rfloor>" by (simp only: y s_def)
  also have "\<dots> = 999999" unfolding z by (rule floor_unique) simp_all
  finally have "generateOTP (1 - 1 / 2 ^ 53) = toString 999999"
    by (simp only: generateOTP_def)
  then show ?thesis by (simp add: toString_def decimal.simps digit_def)
qed

text \<open>
  The rounding matters. \<open>1 - 2 ^ - 54\<close> is below 1 and is not a number of the machine;
  on it the product rounds up to 900000 and the result has seven characters.
\<close>

lemma generateOTP_rounds_up:
  "\<not> is_double (1 - 1 / 2 ^ 54) \<and> generateOTP (1 - 1 / 2 ^ 54) = ''1000000''"
proof -
  define p :: rat where "p = (1 - 1 / 2 ^ 54) * 900000"
  have no: "\<not> is_double (1 - 1 / 2 ^ 54)"
  proof
    assume "is_double (1 - 1 / 2 ^ 54)"
    then have "(1::rat) - 1 / 2 ^ 54 \<le> 1 - 1 / 2 ^ 53"
      by (rule double_below_one) simp_all
    then show False by simp
  qed
  have "round_half_even (p / 2 powi (19 - 52)) = 900000 * 2 ^ 33"
    by (rule round_half_even_eqI') (simp_all add: p_def power_int_minus_divide)
  then have "fl p = rat_of_int (900000 * 2 ^ 33) * 2 powi (19 - 52)"
    by (intro fl_eqI) (simp_all add: p_def)
  then have y: "fl p = 900000"
    by (simp add: power_int_minus_divide)
  have z: "fl (rat_of_int 1000000) = rat_of_int 1000000" by (rule fl_of_int) simp_all
  have "\<lfloor>fl_add 100000 (fl_mul (1 - 1 / 2 ^ 54) 900000)\<rfloor> = \<lfloor>fl (100000 + fl p)\<rfloor>"
    by (simp only: fl_add_def fl_mul_def p_def)
  also have "\<dots> = \<lfloor>fl (rat_of_int 1000000)\<rfloor>" by (simp add: y)
  also have "\<dots> = 1000000" by (simp only: z) simp
  finally have "generateOTP (1 - 1 / 2 ^ 54) = toString 1000000"
    by (simp only: generateOTP_def)
  then have "generateOTP (1 - 1 / 2 ^ 54) = ''1000000''"
    by (simp add: toString_def decimal.simps digit_def)
  with no show ?thesis by simp
qed

subsection \<open>Facts about the methods\<close>

lemma run_Nil: "run [] = initial"
  by (simp add: run_def)

lemma run_snoc: "run (calls @ [c]) = step (run calls) c"
  by (simp add: run_def)

lemma sendSms_returns: "sendSms mailService phoneNumber message = Inr True"
  by (simp add: sendSms_def Let_def split: option.split sum.split)

lemma sendOTP_with_fst: "fst (sendOTP_with deliver this mobile rnd now) = Inr ()"
  by (simp add: sendOTP_with_def Let_def split: sum.split)

lemma sendOTP_with_snd:
  "snd (sendOTP_with deliver this mobile rnd now) = snd (generateUniqueOTP this mobile rnd now)"
  by (simp add: sendOTP_with_def Let_def split: sum.split)

lemma otpStore_generateUniqueOTP:
  "otpStore (snd (generateUniqueOTP this mobile rnd now))
     = Map_set mobile \<lparr>otp = generateOTP rnd, expiresAt = now + 300000\<rparr> (otpStore this)"
  by (simp add: generateUniqueOTP_def Let_def)

lemma latestOtp_generateUniqueOTP:
  "latestOtp (snd (generateUniqueOTP this mobile rnd now)) = Some (generateOTP rnd)"
  by (simp add: generateUniqueOTP_def Let_def)

lemma otpStore_sendOTP:
  "otpStore (snd (sendOTP mailService this mobile rnd now))
     = Map_set mobile \<lparr>otp = generateOTP rnd, expiresAt = now + 300000\<rparr> (otpStore this)"
  by (simp add: sendOTP_def sendOTP_with_snd otpStore_generateUniqueOTP)

lemma latestOtp_sendOTP:
  "latestOtp (snd (sendOTP mailService this mobile rnd now)) = Some (generateOTP rnd)"
  by (simp add: sendOTP_def sendOTP_with_snd latestOtp_generateUniqueOTP)

lemma otpStore_verifyOTP:
  "otpStore (snd (verifyOTP this mobile otpToVerify now))
     = (if fst (verifyOTP this mobile otpToVerify now)
        then Map_delete mobile (otpStore this) else otpStore this)"
  by (simp add: verifyOTP_def Let_def split: option.split)

lemma latestOtp_verifyOTP:
  "latestOtp (snd (verifyOTP this mobile otpToVerify now)) = latestOtp this"
  by (simp add: verifyOTP_def split: option.split)

lemma verifyOTP_match:
  "Map_get mobile (otpStore this) = Some rcd \<Longrightarrow> now \<le> expiresAt rcd \<Longrightarrow>
   verifyOTP this mobile (otp rcd) now
     = (True, this\<lparr>otpStore := Map_delete mobile (otpStore this)\<rparr>)"
  by (simp add: verifyOTP_def)

lemma verifyOTP_absent:
  "Map_get mobile (otpStore this) = None \<Longrightarrow> verifyOTP this mobile otpToVerify now = (False, this)"
  by (simp add: verifyOTP_def)

text \<open>
  The keys of the store stay distinct: each method keeps them so, and the store of a
  new object is empty.
\<close>

lemma step_distinct:
  "distinct (keys (otpStore this)) \<Longrightarrow> distinct (keys (otpStore (step this c)))"
  by (cases c)
    (simp_all add: otpStore_sendOTP otpStore_verifyOTP distinct_keys_set distinct_keys_delete)

lemma run_distinct: "distinct (keys (otpStore (run calls)))"
proof (induction calls rule: rev_induct)
  case Nil
  show ?case by (simp add: run_Nil initial_def keys_def)
next
  case (snoc c calls)
  then show ?case by (simp add: run_snoc step_distinct)
qed

lemma issued_codes_append: "issued_codes (xs @ ys) = issued_codes xs @ issued_codes ys"
  by (induction xs rule: issued_codes.induct) simp_all

lemma pending_eq:
  "pending = \<lparr>otpStore = [(''5550001'', \<lparr>otp = ''550000'', expiresAt = 300000\<rparr>)],
              latestOtp = Some ''550000'', latestMobile = Some ''5550001''\<rparr>"
  by (simp add: pending_def sendOTP_def sendOTP_with_def sendSms_def generateUniqueOTP_def
      initial_def Let_def generateOTP_half)

lemma pending_record:
  "Map_get ''5550001'' (otpStore pending) = Some \<lparr>otp = ''550000'', expiresAt = 300000\<rparr>"
  by (simp add: pending_eq)

subsection \<open>Verification\<close>

text \<open>
  C1. One-time use. After any history of calls, let \<^verbatim>\<open>sendOTP(mobile)\<close> at time
  \<open>issued\<close> store the code \<open>generateOTP rnd\<close>. A \<^verbatim>\<open>verifyOTP\<close> with that code at a
  time \<open>now\<close> not after the expiry returns \<^verbatim>\<open>true\<close> and removes the record, and a
  second \<^verbatim>\<open>verifyOTP\<close> with the same code right after it returns \<^verbatim>\<open>false\<close>, whatever
  the time.
\<close>

theorem one_time_use:
  fixes calls mailService mobile rnd issued now later
  defines "sent \<equiv> snd (sendOTP mailService (run calls) mobile rnd issued)"
  defines "verified \<equiv> verifyOTP sent mobile (generateOTP rnd) now"
  assumes "now \<le> issued + 5 * 60 * 1000"
  shows "fst verified = True
       \<and> Map_get mobile (otpStore (snd verified)) = None
       \<and> fst (verifyOTP (snd verified) mobile (generateOTP rnd) later) = False"
proof -
  let ?rcd = "\<lparr>otp = generateOTP rnd, expiresAt = issued + 300000\<rparr>"
  have store: "otpStore sent = Map_set mobile ?rcd (otpStore (run calls))"
    by (simp add: sent_def otpStore_sendOTP)
  then have get: "Map_get mobile (otpStore sent) = Some ?rcd"
    by (simp add: Map_get_set)
  have keys: "distinct (keys (otpStore sent))"
    by (simp add: store distinct_keys_set run_distinct)
  have v: "verified = (True, sent\<lparr>otpStore := Map_delete mobile (otpStore sent)\<rparr>)"
    using verifyOTP_match [OF get] assms(3) by (simp add: verified_def)
  have gone: "Map_get mobile (otpStore (snd verified)) = None"
    using keys by (simp add: v Map_get_delete)
  show ?thesis
    using gone by (simp add: v verifyOTP_absent)
qed

theorem one_time_use_witness:
  "(299999::int) \<le> 0 + 5 * 60 * 1000
   \<and> generateOTP (1 / 2) = ''550000''
   \<and> fst (verifyOTP (snd (sendOTP None (run []) ''5550001'' (1 / 2) 0))
            ''5550001'' ''550000'' 299999) = True
   \<and> fst (verifyOTP (snd (verifyOTP (snd (sendOTP None (run []) ''5550001'' (1 / 2) 0))
                                ''5550001'' ''550000'' 299999))
            ''5550001'' ''550000'' 299999) = False"
proof -
  have "(299999::int) \<le> 0 + 5 * 60 * 1000" by simp
  from one_time_use [OF this, of None "[]" "''5550001''" "1 / 2" 299999] generateOTP_half
  show ?thesis by simp
qed

text \<open>
  C2, as the code has it. \<^verbatim>\<open>verifyOTP\<close> returns \<^verbatim>\<open>false\<close> and leaves the object as it
  is whenever there is no record for the destination or the record has
  \<open>expiresAt < now\<close>, whatever the candidate, also the stored code. The two cases give
  the same result. The test of the source is \<^verbatim>\<open>record.expiresAt < Date.now()\<close>: at
  \<open>now = expiresAt\<close> the record is still good.
\<close>

theorem verifyOTP_absent_or_expired:
  assumes "Map_get mobile (otpStore this) = None
           \<or> (\<exists>rcd. Map_get mobile (otpStore this) = Some rcd \<and> expiresAt rcd < now)"
  shows "verifyOTP this mobile otpToVerify now = (False, this)"
  using assms by (auto simp: verifyOTP_def)

theorem verifyOTP_absent_or_expired_witness:
  "Map_get ''5550001'' (otpStore pending) = Some \<lparr>otp = ''550000'', expiresAt = 300000\<rparr>
   \<and> (300000::int) < 300001
   \<and> Map_get ''5550002'' (otpStore pending) = None
   \<and> verifyOTP pending ''5550001'' ''550000'' 300001 = (False, pending)
   \<and> verifyOTP pending ''5550002'' ''550000'' 300001 = (False, pending)"
proof -
  have a: "Map_get ''5550002'' (otpStore pending) = None"
    by (simp add: pending_eq)
  have c: "\<exists>rcd. Map_get ''5550001'' (otpStore pending) = Some rcd \<and> expiresAt rcd < 300001"
    using pending_record by simp
  show ?thesis
    using verifyOTP_absent_or_expired [of "''5550002''" pending 300001 "''550000''", OF disjI1 [OF a]]
      verifyOTP_absent_or_expired [of "''5550001''" pending 300001 "''550000''", OF disjI2 [OF c]]
      a pending_record
    by simp
qed

text \<open>
  The claim C2 as the specification words it, with \<open>expiresAt \<le> now\<close>, fails at
  \<open>now = expiresAt\<close>: the record of \<open>pending\<close> expires at \<open>300000\<close>, and at that time
  \<^verbatim>\<open>verifyOTP\<close> with the stored code returns \<^verbatim>\<open>true\<close>.
\<close>

theorem verifyOTP_at_expiresAt_counterexample:
  "Map_get ''5550001'' (otpStore pending) = Some \<lparr>otp = ''550000'', expiresAt = 300000\<rparr>
   \<and> (300000::int) \<le> 300000
   \<and> fst (verifyOTP pending ''5550001'' ''550000'' 300000) = True"
  by (simp add: pending_eq verifyOTP_def)

text \<open>
  C3. A failed attempt does not consume the record. When the destination has a record
  that has not expired and the candidate differs from its code, \<^verbatim>\<open>verifyOTP\<close> returns
  \<^verbatim>\<open>false\<close> and leaves the object as it is, and a later \<^verbatim>\<open>verifyOTP\<close> with the stored
  code, not after the expiry, returns \<^verbatim>\<open>true\<close>. And any call of \<^verbatim>\<open>verifyOTP\<close> changes
  the object by at most one \<^verbatim>\<open>delete\<close> on the store, made exactly when it returns
  \<^verbatim>\<open>true\<close>.
\<close>

theorem failed_verifyOTP_keeps_record:
  assumes "Map_get mobile (otpStore this) = Some rcd"
      and "now \<le> expiresAt rcd"
      and "wrong \<noteq> otp rcd"
      and "later \<le> expiresAt rcd"
  shows "verifyOTP this mobile wrong now = (False, this)
       \<and> fst (verifyOTP (snd (verifyOTP this mobile wrong now)) mobile (otp rcd) later) = True
       \<and> snd (verifyOTP this' mobile' candidate now')
           = (if fst (verifyOTP this' mobile' candidate now')
              then this'\<lparr>otpStore := Map_delete mobile' (otpStore this')\<rparr> else this')"
proof -
  have first: "verifyOTP this mobile wrong now = (False, this)"
    using assms(1-3) by (auto simp: verifyOTP_def)
  have "fst (verifyOTP this mobile (otp rcd) later) = True"
    using verifyOTP_match [OF assms(1) assms(4)] by simp
  moreover have "snd (verifyOTP this' mobile' candidate now')
           = (if fst (verifyOTP this' mobile' candidate now')
              then this'\<lparr>otpStore := Map_delete mobile' (otpStore this')\<rparr> else this')"
    by (simp add: verifyOTP_def split: option.split)
  ultimately show ?thesis by (simp add: first)
qed

theorem failed_verifyOTP_keeps_record_witness:
  "Map_get ''5550001'' (otpStore pending) = Some \<lparr>otp = ''550000'', expiresAt = 300000\<rparr>
   \<and> (1000::int) \<le> 300000 \<and> ''000000'' \<noteq> ''550000'' \<and> (2000::int) \<le> 300000
   \<and> verifyOTP pending ''5550001'' ''000000'' 1000 = (False, pending)
   \<and> fst (verifyOTP (snd (verifyOTP pending ''5550001'' ''000000'' 1000))
            ''5550001'' ''550000'' 2000) = True
   \<and> snd (verifyOTP pending ''5550001'' ''550000'' 2000) = pending\<lparr>otpStore := []\<rparr>"
proof -
  have c: "Map_delete ''5550001'' (otpStore pending) = []"
    by (simp add: pending_eq)
  show ?thesis
    using failed_verifyOTP_keeps_record [OF pending_record, where now = 1000
        and wrong = "''000000''" and later = 2000 and this' = pending
        and mobile' = "''5550001''" and candidate = "''550000''" and now' = 2000]
      pending_record c
    by auto
qed

text \<open>
  The claim C4, that \<^verbatim>\<open>verifyOTP\<close> deletes a record it finds expired, fails: the record
  of \<open>pending\<close> expired at \<open>300000\<close>, \<^verbatim>\<open>verifyOTP\<close> at \<open>300001\<close> returns \<^verbatim>\<open>false\<close>, and
  the record is in the store afterwards.
\<close>

theorem expired_record_deleted_counterexample:
  "Map_get ''5550001'' (otpStore pending) = Some \<lparr>otp = ''550000'', expiresAt = 300000\<rparr>
   \<and> (300000::int) < 300001
   \<and> fst (verifyOTP pending ''5550001'' ''550000'' 300001) = False
   \<and> Map_get ''5550001'' (otpStore (snd (verifyOTP pending ''5550001'' ''550000'' 300001)))
       = Some \<lparr>otp = ''550000'', expiresAt = 300000\<rparr>"
  by (simp add: pending_eq verifyOTP_def)

text \<open>
  C4, as the code has it. When \<^verbatim>\<open>verifyOTP\<close> finds a record whose expiry has passed, it
  returns \<^verbatim>\<open>false\<close> and leaves the store as it is: the record stays, and it is treated
  as absent, since every \<^verbatim>\<open>verifyOTP\<close> for the destination from then on returns
  \<^verbatim>\<open>false\<close> too.
\<close>

theorem expired_record_stays:
  assumes "Map_get mobile (otpStore this) = Some rcd"
      and "expiresAt rcd < now"
      and "now \<le> later"
  shows "fst (verifyOTP this mobile otpToVerify now) = False
       \<and> otpStore (snd (verifyOTP this mobile otpToVerify now)) = otpStore this
       \<and> Map_get mobile (otpStore (snd (verifyOTP this mobile otpToVerify now))) = Some rcd
       \<and> fst (verifyOTP (snd (verifyOTP this mobile otpToVerify now)) mobile candidate later)
           = False"
  using assms by (simp add: verifyOTP_def)

theorem expired_record_stays_witness:
  "Map_get ''5550001'' (otpStore pending) = Some \<lparr>otp = ''550000'', expiresAt = 300000\<rparr>
   \<and> (300000::int) < 300001 \<and> (300001::int) \<le> 300002
   \<and> fst (verifyOTP pending ''5550001'' ''550000'' 300001) = False
   \<and> otpStore (snd (verifyOTP pending ''5550001'' ''550000'' 300001)) = otpStore pending
   \<and> fst (verifyOTP (snd (verifyOTP pending ''5550001'' ''550000'' 300001))
            ''5550001'' ''550000'' 300002) = False"
  using expired_record_stays [OF pending_record, of 300001 300002 "''550000''" "''550000''"]
    pending_record
  by simp

subsection \<open>Issuance\<close>

text \<open>
  C5. \<^verbatim>\<open>sendOTP\<close> never fails. Whatever the function it awaits does, also when it
  throws, the promise of \<^verbatim>\<open>sendOTP\<close> resolves, the object is the one
  \<^verbatim>\<open>generateUniqueOTP\<close> left, and the record is stored. \<^verbatim>\<open>sendSms\<close> itself catches what
  the mail service throws and returns \<^verbatim>\<open>true\<close>.
\<close>

theorem sendOTP_never_fails:
  "fst (sendOTP_with deliver this mobile rnd now) = Inr ()
   \<and> snd (sendOTP_with deliver this mobile rnd now) = snd (generateUniqueOTP this mobile rnd now)
   \<and> Map_get mobile (otpStore (snd (sendOTP_with deliver this mobile rnd now)))
       = Some \<lparr>otp = generateOTP rnd, expiresAt = now + 5 * 60 * 1000\<rparr>
   \<and> sendSms mailService mobile message = Inr True
   \<and> fst (sendOTP mailService this mobile rnd now) = Inr ()"
  by (simp add: sendOTP_def sendOTP_with_fst sendOTP_with_snd sendSms_returns
      otpStore_generateUniqueOTP Map_get_set)

text \<open>
  C6. \<^verbatim>\<open>sendOTP\<close> changes the store by one \<^verbatim>\<open>set\<close>: the record of the destination
  becomes the generated code with \<open>expiresAt = now + 5 * 60 * 1000\<close>, and the record of
  every other destination is what it was.
\<close>

theorem sendOTP_store:
  "otpStore (snd (sendOTP mailService this mobile rnd now))
     = Map_set mobile \<lparr>otp = generateOTP rnd, expiresAt = now + 5 * 60 * 1000\<rparr> (otpStore this)
   \<and> Map_get other (otpStore (snd (sendOTP mailService this mobile rnd now)))
     = (if other = mobile then Some \<lparr>otp = generateOTP rnd, expiresAt = now + 5 * 60 * 1000\<rparr>
        else Map_get other (otpStore this))"
  by (simp add: otpStore_sendOTP Map_get_set)

text \<open>
  C7. For every number \<open>rnd\<close> of the machine with \<open>0 \<le> rnd < 1\<close>, which is what
  \<^verbatim>\<open>Math.random()\<close> returns, the code is a string of 6 characters, all of them ASCII
  digits, and read as a number it lies between 100000 and 999999.
\<close>

theorem generateOTP_shape:
  assumes "is_double rnd" and "0 \<le> rnd" and "rnd < 1"
  shows "length (generateOTP rnd) = 6
       \<and> (\<forall>c \<in> set (generateOTP rnd). is_ascii_digit c)
       \<and> 100000 \<le> numeric_value (generateOTP rnd)
       \<and> numeric_value (generateOTP rnd) \<le> 999999"
proof -
  define m where "m = \<lfloor>fl_add 100000 (fl_mul rnd 900000)\<rfloor>"
  define n where "n = nat m"
  have m: "100000 \<le> m" "m \<le> 999999"
    unfolding m_def by (rule floor_range [OF assms])+
  then have lo: "100000 \<le> n" and hi: "n \<le> 999999"
    by (simp_all add: n_def)
  have "generateOTP rnd = toString m"
    by (simp only: generateOTP_def m_def)
  with m have eq: "generateOTP rnd = decimal n"
    by (simp add: toString_def n_def)
  have "length (decimal n) = Suc 5"
    using lo hi by (intro length_decimal) simp_all
  then show ?thesis
    using lo hi by (simp add: eq numeric_value_decimal decimal_digits)
qed

theorem generateOTP_shape_witness:
  "is_double (1 / 2) \<and> (0::rat) \<le> 1 / 2 \<and> (1::rat) / 2 < 1
   \<and> generateOTP (1 / 2) = ''550000''
   \<and> length (generateOTP (1 / 2)) = 6
   \<and> list_all is_ascii_digit (generateOTP (1 / 2))
   \<and> numeric_value (generateOTP (1 / 2)) = 550000"
  using generateOTP_shape [OF is_double_half] is_double_half
  by (simp add: generateOTP_half numeric_value_def digit_value_def is_ascii_digit_def)

text \<open>
  C8. After every history of calls the store has at most one record for a
  destination. And when \<^verbatim>\<open>sendOTP\<close> is called twice for a destination, the store has
  one record for it, the second code verifies until its expiry and the first code,
  when it differs from the second, does not.
\<close>

theorem latest_code_wins:
  fixes calls mailService mailService' mobile rnd rnd' issued issued' now
  defines "first \<equiv> snd (sendOTP mailService (run calls) mobile rnd issued)"
  defines "second \<equiv> snd (sendOTP mailService' first mobile rnd' issued')"
  assumes "now \<le> issued' + 5 * 60 * 1000"
      and "generateOTP rnd \<noteq> generateOTP rnd'"
  shows "length (filter (\<lambda>e. fst e = destination) (otpStore (run calls))) \<le> 1
       \<and> length (filter (\<lambda>e. fst e = mobile) (otpStore second)) = 1
       \<and> fst (verifyOTP second mobile (generateOTP rnd') now) = True
       \<and> fst (verifyOTP second mobile (generateOTP rnd) now) = False"
proof -
  let ?rcd = "\<lparr>otp = generateOTP rnd', expiresAt = issued' + 300000\<rparr>"
  have get: "Map_get mobile (otpStore second) = Some ?rcd"
    by (simp add: second_def otpStore_sendOTP Map_get_set)
  have "distinct (keys (otpStore second))"
    by (simp add: second_def first_def otpStore_sendOTP distinct_keys_set run_distinct)
  then have "length (filter (\<lambda>e. fst e = mobile) (otpStore second)) \<le> 1"
    by (rule distinct_keys_at_most_one)
  moreover have "filter (\<lambda>e. fst e = mobile) (otpStore second) \<noteq> []"
    using get Map_get_None_iff [of mobile "otpStore second"]
    by (auto simp: filter_empty_conv keys_def)
  ultimately have one: "length (filter (\<lambda>e. fst e = mobile) (otpStore second)) = 1"
    by (cases "filter (\<lambda>e. fst e = mobile) (otpStore second)") simp_all
  have good: "fst (verifyOTP second mobile (generateOTP rnd') now) = True"
    using verifyOTP_match [OF get] assms(3) by simp
  have bad: "fst (verifyOTP second mobile (generateOTP rnd) now) = False"
    using get assms(4) by (simp add: verifyOTP_def)
  show ?thesis
    using distinct_keys_at_most_one [OF run_distinct] one good bad by simp
qed

theorem latest_code_wins_witness:
  "(1000::int) \<le> 500 + 5 * 60 * 1000
   \<and> generateOTP (1 / 2) = ''550000'' \<and> generateOTP (1 / 4) = ''325000''
   \<and> generateOTP (1 / 2) \<noteq> generateOTP (1 / 4)
   \<and> length (filter (\<lambda>e. fst e = ''5550001'')
         (otpStore (snd (sendOTP None pending ''5550001'' (1 / 4) 500)))) = 1
   \<and> fst (verifyOTP (snd (sendOTP None pending ''5550001'' (1 / 4) 500))
            ''5550001'' ''325000'' 1000) = True
   \<and> fst (verifyOTP (snd (sendOTP None pending ''5550001'' (1 / 4) 500))
            ''5550001'' ''550000'' 1000) = False"
proof -
  have a: "(1000::int) \<le> 500 + 5 * 60 * 1000" by simp
  have b: "generateOTP (1 / 2) \<noteq> generateOTP (1 / 4)"
    by (simp add: generateOTP_half generateOTP_quarter)
  show ?thesis
    using latest_code_wins [OF a b, where mailService = None and mailService' = None
        and calls = "[]" and mobile = "''5550001''" and destination = "''5550001''"
        and issued = 0]
      generateOTP_half generateOTP_quarter
    by (simp add: run_Nil pending_def)
qed

subsection \<open>The development accessor\<close>

text \<open>
  C9. After every history of calls, \<^verbatim>\<open>getLatestOtpForDevelopment\<close> returns what the
  accessor is specified to return: the code of the latest \<^verbatim>\<open>sendOTP\<close> call of the
  history, whatever its destination, and \<^verbatim>\<open>null\<close> when the history has none.
\<close>

theorem getLatestOtpForDevelopment_run:
  "getLatestOtpForDevelopment (run calls) = spec_peekLastIssuedCode calls"
proof (induction calls rule: rev_induct)
  case Nil
  show ?case
    by (simp add: run_Nil initial_def getLatestOtpForDevelopment_def spec_peekLastIssuedCode_def)
next
  case (snoc c calls)
  show ?case
  proof (cases c)
    case (SendOTP mailService mobile rnd now)
    then show ?thesis
      by (simp add: run_snoc getLatestOtpForDevelopment_def spec_peekLastIssuedCode_def
          issued_codes_append latestOtp_sendOTP)
  next
    case (VerifyOTP mobile otpToVerify now)
    with snoc show ?thesis
      by (simp add: run_snoc getLatestOtpForDevelopment_def spec_peekLastIssuedCode_def
          issued_codes_append latestOtp_verifyOTP)
  qed
qed

text \<open>
  C10. \<^verbatim>\<open>verifyOTP\<close> never changes the latest issued code: after any call, also one that
  succeeds and removes the record, \<^verbatim>\<open>getLatestOtpForDevelopment\<close> returns what it
  returned before the call.
\<close>

theorem verifyOTP_keeps_latestOtp:
  "getLatestOtpForDevelopment (snd (verifyOTP this mobile otpToVerify now))
     = getLatestOtpForDevelopment this"
  by (simp add: getLatestOtpForDevelopment_def latestOtp_verifyOTP)

end
